theory Spec2Isabelle
  imports Complex_Main "HOL-Library.Multiset"
begin

section \<open>Audio buffers\<close>

text \<open>
  The program (\<^verbatim>\<open>app.py\<close>) builds a backing track with the \<^verbatim>\<open>pydub\<close> library, whose code
  is not part of the repository. The buffer type and the library operations the program calls
  are therefore modelled from the specification: samples are real numbers (no quantisation
  and no clipping), a frame holds one sample per channel. Python floats are real numbers,
  except in the loop of the fixed-tempo grid, which is computed in double precision: each
  quotient and each sum of the loop is rounded to the nearest double.
\<close>

record segment =
  frame_rate :: nat
  channels :: nat
  frames :: "real list list"

text \<open>Modelled from the spec: \<^verbatim>\<open>AudioSegment.duration_seconds\<close> of pydub, the frame count
  over the frame rate (0 when the rate is 0).\<close>

definition duration_seconds :: "segment \<Rightarrow> real" where
  "duration_seconds s =
     (if frame_rate s = 0 then 0 else real (length (frames s)) / real (frame_rate s))"

text \<open>Modelled from the spec: \<^verbatim>\<open>AudioSegment.set_channels\<close> of pydub, which the spec describes as
  conversion to a common channel count. A frame that already has \<open>n\<close> samples is kept, any
  other frame is mixed down to its mean and copied to the \<open>n\<close> channels.\<close>

definition remix :: "nat \<Rightarrow> real list \<Rightarrow> real list" where
  "remix n fr = (if length fr = n then fr else replicate n (sum_list fr / real (length fr)))"

definition set_channels :: "nat \<Rightarrow> segment \<Rightarrow> segment" where
  "set_channels n s = s\<lparr>channels := n, frames := map (remix n) (frames s)\<rparr>"

text \<open>Modelled from the spec: \<^verbatim>\<open>AudioSegment.silent(duration, frame_rate)\<close> of pydub, a
  one-channel buffer of zeros lasting \<open>duration\<close> milliseconds.\<close>

definition silent :: "int \<Rightarrow> nat \<Rightarrow> segment" where
  "silent duration rate =
     \<lparr>frame_rate = rate, channels = 1,
      frames = replicate (nat \<lfloor>real rate * (real_of_int duration / 1000)\<rfloor>) [0]\<rparr>"

text \<open>Modelled from the spec: gain in decibels, "additive in log domain", realised by the
  uniform decibel-to-linear conversion \<open>10 ^ (dB / 20)\<close> (\<^verbatim>\<open>AudioSegment.apply_gain\<close>).\<close>

definition db_to_float :: "real \<Rightarrow> real" where
  "db_to_float db = 10 powr (db / 20)"

definition apply_gain :: "real \<Rightarrow> segment \<Rightarrow> segment" where
  "apply_gain volume_change s =
     s\<lparr>frames := map (map (\<lambda>x. x * db_to_float volume_change)) (frames s)\<rparr>"

text \<open>Modelled from the spec: the operators \<^verbatim>\<open>seg + dB\<close> and \<^verbatim>\<open>seg - dB\<close> of pydub, which apply
  the gain and its negation.\<close>

definition seg_add :: "segment \<Rightarrow> real \<Rightarrow> segment" where
  "seg_add s db = apply_gain db s"

definition seg_sub :: "segment \<Rightarrow> real \<Rightarrow> segment" where
  "seg_sub s db = apply_gain (- db) s"

text \<open>Modelled from the spec: \<^verbatim>\<open>AudioSegment.overlay(seg, position)\<close>, "additive combination of
  two audio buffers at a given time offset (sample-wise sum, not replacement)". The result
  keeps the length, rate and channel count of the base; the overlaid buffer is converted to
  the base's channel count, starts at the frame of \<open>position\<close> milliseconds and is cut at
  the end of the base.\<close>

definition add_frame :: "real list \<Rightarrow> real list \<Rightarrow> real list" where
  "add_frame x y = map2 (+) x y"

fun mix_at :: "real list list \<Rightarrow> real list list \<Rightarrow> nat \<Rightarrow> real list list" where
  "mix_at [] ys off = []"
| "mix_at (x # xs) ys (Suc off) = x # mix_at xs ys off"
| "mix_at (x # xs) [] 0 = x # xs"
| "mix_at (x # xs) (y # ys) 0 = add_frame x y # mix_at xs ys 0"

definition ms_to_frames :: "nat \<Rightarrow> nat \<Rightarrow> nat" where
  "ms_to_frames rate ms = (ms * rate) div 1000"

definition overlay :: "segment \<Rightarrow> segment \<Rightarrow> nat \<Rightarrow> segment" where
  "overlay base seg position =
     base\<lparr>frames := mix_at (frames base) (frames (set_channels (channels base) seg))
                       (ms_to_frames (frame_rate base) position)\<rparr>"

text \<open>Modelled from the spec: \<^verbatim>\<open>AudioSegment.max_dBFS\<close>, the peak level relative to full scale
  (16-bit PCM, as \<^verbatim>\<open>ffmpeg_convert_to_wav\<close> writes it); the peak of silence is minus
  infinity.\<close>

datatype level = NegInf | Db real

definition max_possible_amplitude :: real where
  "max_possible_amplitude = 32768"

definition peak :: "segment \<Rightarrow> real" where
  "peak s = fold (\<lambda>x m. max m \<bar>x\<bar>) (concat (frames s)) 0"

definition max_dBFS :: "segment \<Rightarrow> level" where
  "max_dBFS s =
     (if peak s = 0 then NegInf else Db (20 * log 10 (peak s / max_possible_amplitude)))"

section \<open>Python numbers\<close>

text \<open>\<^verbatim>\<open>int(x)\<close> of a float truncates towards zero; \<^verbatim>\<open>round(x, 6)\<close> rounds to six decimal
  digits, a tie going to the even neighbour.\<close>

definition py_int :: "real \<Rightarrow> int" where
  "py_int x = (if 0 \<le> x then \<lfloor>x\<rfloor> else \<lceil>x\<rceil>)"

definition round_half_even :: "real \<Rightarrow> int" where
  "round_half_even x =
     (let f = \<lfloor>x\<rfloor>; d = x - real_of_int f
      in if d < 1 / 2 then f else if 1 / 2 < d then f + 1 else if even f then f else f + 1)"

text \<open>A finite double is modelled by its value. \<open>fl\<close> rounds a real number to the nearest
  number with 53 significant bits, a tie going to the even significand: \<open>scale53\<close> brings the
  magnitude into \<open>[2^52, 2^53)\<close> by doubling or halving and returns it with the unit of the
  last place. The range of the exponent is not bounded (no overflow and no subnormal
  numbers).\<close>

function scale53 :: "real \<Rightarrow> real \<Rightarrow> real \<times> real" where
  "scale53 x u =
     (if 0 < x \<and> x < 2 ^ 52 then scale53 (2 * x) (u / 2)
      else if 2 ^ 53 \<le> x then scale53 (x / 2) (2 * u)
      else (x, u))"
  by pat_completeness auto
termination
proof (relation "measure (\<lambda>(x, u). nat \<bar>\<lfloor>log 2 x\<rfloor> - 52\<bar>)")
  show "wf (measure (\<lambda>(x, u). nat \<bar>\<lfloor>log 2 x\<rfloor> - 52\<bar>))" by simp
next
  fix x u :: real
  assume a: "0 < x \<and> x < 2 ^ 52"
  have e: "log 2 ((2 :: real) ^ 52) = real 52" by (rule log_pow_cancel) simp_all
  have "log 2 x < log 2 ((2 :: real) ^ 52)"
    using a by (intro iffD2[OF log_less_cancel_iff]) simp_all
  then have "log 2 x < 52" unfolding e by simp
  then have l: "\<lfloor>log 2 x\<rfloor> \<le> 51" by linarith
  have "log 2 (2 * x) = log 2 x + 1" using a by (simp add: log_mult_pos)
  then have "\<lfloor>log 2 (2 * x)\<rfloor> = \<lfloor>log 2 x\<rfloor> + 1" by simp
  with l show "((2 * x, u / 2), (x, u)) \<in> measure (\<lambda>(x, u). nat \<bar>\<lfloor>log 2 x\<rfloor> - 52\<bar>)"
    by simp
next
  fix x u :: real
  assume "\<not> (0 < x \<and> x < 2 ^ 52)" and a: "2 ^ 53 \<le> x"
  have "(0 :: real) < 2 ^ 53" by simp
  with a have p: "0 < x" by linarith
  have e: "log 2 ((2 :: real) ^ 53) = real 53" by (rule log_pow_cancel) simp_all
  have "log 2 ((2 :: real) ^ 53) \<le> log 2 x"
    using a p by (intro iffD2[OF log_le_cancel_iff]) simp_all
  then have "53 \<le> log 2 x" unfolding e by simp
  then have l: "53 \<le> \<lfloor>log 2 x\<rfloor>" by linarith
  have "log 2 (x / 2) = log 2 x - 1" using p by (simp add: log_divide_pos)
  then have "\<lfloor>log 2 (x / 2)\<rfloor> = \<lfloor>log 2 x\<rfloor> - 1" by simp
  with l show "((x / 2, 2 * u), (x, u)) \<in> measure (\<lambda>(x, u). nat \<bar>\<lfloor>log 2 x\<rfloor> - 52\<bar>)"
    by simp
qed

definition fl :: "real \<Rightarrow> real" where
  "fl x =
     (if x = 0 then 0
      else (case scale53 \<bar>x\<bar> 1 of (m, u) \<Rightarrow> sgn x * real_of_int (round_half_even m) * u))"

text \<open>The sum and the quotient of two doubles.\<close>

definition fadd :: "real \<Rightarrow> real \<Rightarrow> real" where
  "fadd x y = fl (x + y)"

definition fdiv :: "real \<Rightarrow> real \<Rightarrow> real" where
  "fdiv x y = fl (x / y)"

text \<open>\<^verbatim>\<open>round(x, 6)\<close> of a double: the decimal number with six digits nearest to the value
  of \<open>x\<close>, then the double nearest to that decimal number.\<close>

definition py_round6 :: "real \<Rightarrow> real" where
  "py_round6 x = fl (real_of_int (round_half_even (x * 1000000)) / 1000000)"

section \<open>Helpers of \<^verbatim>\<open>app.py\<close>\<close>

datatype error = FileNotFoundError string | ValueError

text \<open>\<^verbatim>\<open>_longest_duration_ms\<close>: the maximum over the buffers of the duration in whole
  milliseconds; Python's \<^verbatim>\<open>max\<close> of no values raises \<^verbatim>\<open>ValueError\<close>.\<close>

definition duration_ms :: "segment \<Rightarrow> int" where
  "duration_ms s = py_int (duration_seconds s * 1000)"

fun longest_duration_ms :: "segment list \<Rightarrow> error + int" where
  "longest_duration_ms [] = Inl ValueError"
| "longest_duration_ms (s # segs) = Inr (fold (\<lambda>s m. max m (duration_ms s)) segs (duration_ms s))"

text \<open>\<^verbatim>\<open>_make_click_sample\<close>: the white-noise burst of 20 ms, resampled and faded out, is
  random and comes from the library; it is the parameter \<open>burst\<close>. The function sets its
  level with the two-branch expression of the source.\<close>

definition make_click_sample :: "segment \<Rightarrow> real \<Rightarrow> segment" where
  "make_click_sample burst level_db =
     (if level_db < 0 then seg_sub burst (max 0 (- level_db)) else seg_add burst level_db)"

text \<open>The uniform expression of the specification: the level is added whatever its sign.\<close>

definition make_click_sample_uniform :: "segment \<Rightarrow> real \<Rightarrow> segment" where
  "make_click_sample_uniform burst level_db = seg_add burst level_db"

section \<open>The files of the stems directory\<close>

text \<open>
  The stems directory is a list of file names with their decoded content; \<open>metadata\<close> is the
  content of \<^verbatim>\<open>metadata.json\<close> when the file exists, \<open>beat_track\<close> the beat times the
  external estimator returns for \<^verbatim>\<open>mix.wav\<close>, \<open>noise_burst\<close> the faded white-noise burst the
  library generates for a sample rate. \<open>trace\<close> records the files read and written.
\<close>

datatype event = Loaded string | Exported string string

record world =
  files :: "(string \<times> segment) list"
  metadata :: "(string \<times> real list) list option"
  beat_track :: "real list"
  noise_burst :: "nat \<Rightarrow> segment"
  trace :: "event list"

record options =
  auto_bpm :: bool
  bpm :: "real option"
  with_click :: bool
  drum_gain :: "real option"
  mp3 :: bool

record stems =
  vocals :: segment
  drums :: segment
  bass :: segment
  other :: segment
  mix :: segment

datatype exit = Exit int error

definition path_exists :: "world \<Rightarrow> string \<Rightarrow> bool" where
  "path_exists w n = (map_of (files w) n \<noteq> None)"

text \<open>An exception leaves the rest of the \<^verbatim>\<open>try\<close> block unexecuted.\<close>

fun raise_or ::
  "world \<times> (error + 'a) \<Rightarrow> (world \<Rightarrow> 'a \<Rightarrow> (world \<times> (error + 'b)) option)
     \<Rightarrow> (world \<times> (error + 'b)) option" where
  "raise_or (w, Inl e) k = Some (w, Inl e)"
| "raise_or (w, Inr x) k = k w x"

text \<open>\<^verbatim>\<open>_load_seg\<close>: decode the file and convert it to two channels.\<close>

definition load_seg :: "world \<Rightarrow> string \<Rightarrow> world \<times> (error + segment)" where
  "load_seg w path =
     (case map_of (files w) path of
        None \<Rightarrow> (w, Inl (FileNotFoundError path))
      | Some seg \<Rightarrow> (w\<lparr>trace := trace w @ [Loaded path]\<rparr>, Inr (set_channels 2 seg)))"

text \<open>\<^verbatim>\<open>backing.export(path, format)\<close> writes the buffer to the directory.\<close>

definition export :: "world \<Rightarrow> string \<Rightarrow> string \<Rightarrow> segment \<Rightarrow> world" where
  "export w path fmt seg =
     w\<lparr>files := (path, seg) # files w, trace := trace w @ [Exported path fmt]\<rparr>"

section \<open>\<^verbatim>\<open>make_backing\<close>\<close>

definition required :: "string list" where
  "required = [''vocals.wav'', ''drums.wav'', ''bass.wav'', ''other.wav'', ''mix.wav'']"

text \<open>Lines 215 to 217: the first required file that does not exist raises.\<close>

fun check_required :: "world \<Rightarrow> string list \<Rightarrow> world \<times> (error + unit)" where
  "check_required w [] = (w, Inr ())"
| "check_required w (n # ns) =
     (if \<not> path_exists w n then (w, Inl (FileNotFoundError n)) else check_required w ns)"

text \<open>Line 227: the silent two-channel canvas.\<close>

definition canvas :: "int \<Rightarrow> nat \<Rightarrow> segment" where
  "canvas max_len rate = set_channels 2 (silent max_len rate)"

text \<open>Lines 229 and 230: the gain of the drums.\<close>

definition attenuate :: "real option \<Rightarrow> segment \<Rightarrow> segment" where
  "attenuate g d = (case g of None \<Rightarrow> d | Some db \<Rightarrow> seg_add d db)"

text \<open>Lines 232 to 235: vocals, bass, other, then the drums, each at offset 0.\<close>

definition stem_mix :: "segment \<Rightarrow> segment \<Rightarrow> segment \<Rightarrow> segment \<Rightarrow> segment \<Rightarrow> segment" where
  "stem_mix base v b o' d = overlay (overlay (overlay (overlay base v 0) b 0) o' 0) d 0"

definition stems_backing :: "real option \<Rightarrow> stems \<Rightarrow> int \<Rightarrow> segment" where
  "stems_backing g st max_len =
     (let base = canvas max_len (frame_rate (mix st));
          d = attenuate g (drums st)
      in stem_mix base (vocals st) (bass st) (other st) d)"

text \<open>Lines 252 to 257: the loop of the fixed-tempo grid, \<open>t\<close> starting at 0 and
  \<open>beats_sec\<close> at the empty list; \<open>step\<close>, \<open>total\<close> and \<open>t\<close> are doubles. \<open>None\<close> is a loop
  that does not end, as when \<open>t + step\<close> rounds back to \<open>t\<close>.\<close>

partial_function (option) fixed_tempo_loop ::
  "real \<Rightarrow> real \<Rightarrow> real \<Rightarrow> real list \<Rightarrow> real list option" where
  "fixed_tempo_loop step total_s t beats_sec =
     (if t \<le> total_s
      then fixed_tempo_loop step total_s (fadd t step) (beats_sec @ [py_round6 t])
      else Some beats_sec)"

definition fixed_tempo_grid :: "real \<Rightarrow> real \<Rightarrow> real list option" where
  "fixed_tempo_grid b total_s = fixed_tempo_loop (fdiv 60 b) total_s 0 []"

text \<open>Lines 237 to 257: the beat grid. \<^verbatim>\<open>bpm and bpm > 0\<close> is false for an absent and for a
  zero tempo.\<close>

definition beats_of :: "world \<Rightarrow> options \<Rightarrow> int \<Rightarrow> real list option" where
  "beats_of w opts max_len =
     (if with_click opts then
        (if auto_bpm opts then
           (case metadata w of
              Some meta \<Rightarrow> Some (case map_of meta ''beats'' of None \<Rightarrow> [] | Some bs \<Rightarrow> bs)
            | None \<Rightarrow> Some (beat_track w))
         else
           (case bpm opts of
              None \<Rightarrow> Some []
            | Some b \<Rightarrow> if b \<noteq> 0 \<and> 0 < b then fixed_tempo_grid b (fdiv (real_of_int max_len) 1000)
                        else Some []))
      else Some [])"

text \<open>Lines 261 to 264: the position of a beat in milliseconds and the loop over the grid.\<close>

definition click_position :: "real \<Rightarrow> int" where
  "click_position t = py_int (t * 1000)"

fun overlay_clicks :: "segment \<Rightarrow> segment \<Rightarrow> int \<Rightarrow> real list \<Rightarrow> segment" where
  "overlay_clicks backing click max_len [] = backing"
| "overlay_clicks backing click max_len (t # ts) =
     (let pos = click_position t
      in overlay_clicks
           (if 0 \<le> pos \<and> pos < max_len then overlay backing click (nat pos) else backing)
           click max_len ts)"

text \<open>Lines 259 to 264.\<close>

definition click_stage :: "world \<Rightarrow> nat \<Rightarrow> segment \<Rightarrow> int \<Rightarrow> real list \<Rightarrow> segment" where
  "click_stage w rate backing max_len beats_sec =
     (if beats_sec \<noteq> [] then
        overlay_clicks backing (make_click_sample (noise_burst w rate) (- 6)) max_len beats_sec
      else backing)"

text \<open>Lines 267 and 268: the gain that brings the peak to \<open>-1\<close> dBFS.\<close>

definition normalize_gain :: "segment \<Rightarrow> real" where
  "normalize_gain backing = (case max_dBFS backing of NegInf \<Rightarrow> 0 | Db p \<Rightarrow> - 1 - p)"

definition normalize :: "segment \<Rightarrow> segment" where
  "normalize backing = apply_gain (normalize_gain backing) backing"

text \<open>The body of the \<^verbatim>\<open>try\<close> block; \<open>None\<close> is a run that does not return.\<close>

definition make_backing_body :: "world \<Rightarrow> options \<Rightarrow> (world \<times> (error + unit)) option" where
  "make_backing_body w0 opts =
     raise_or (check_required w0 required) (\<lambda>w _.
     raise_or (load_seg w ''vocals.wav'') (\<lambda>w v.
     raise_or (load_seg w ''drums.wav'') (\<lambda>w d.
     raise_or (load_seg w ''bass.wav'') (\<lambda>w b.
     raise_or (load_seg w ''other.wav'') (\<lambda>w o'.
     raise_or (load_seg w ''mix.wav'') (\<lambda>w m.
     raise_or (w, longest_duration_ms [v, d, b, o', m]) (\<lambda>w max_len.
       let st = \<lparr>vocals = v, drums = d, bass = b, other = o', mix = m\<rparr>;
           backing = stems_backing (drum_gain opts) st max_len
       in case beats_of w opts max_len of
            None \<Rightarrow> None
          | Some beats_sec \<Rightarrow>
              let backing = click_stage w (frame_rate m) backing max_len beats_sec;
                  backing = normalize backing;
                  w = export w ''backing.wav'' ''wav'' backing;
                  w = (if mp3 opts then export w ''backing.mp3'' ''mp3'' backing else w)
              in Some (w, Inr ()))))))))"

text \<open>Lines 285 to 287: every exception is logged and turned into exit code 1.\<close>

definition make_backing :: "world \<Rightarrow> options \<Rightarrow> (world \<times> (exit + unit)) option" where
  "make_backing w opts =
     (case make_backing_body w opts of
        None \<Rightarrow> None
      | Some (w', Inl e) \<Rightarrow> Some (w', Inl (Exit 1 e))
      | Some (w', Inr u) \<Rightarrow> Some (w', Inr u))"


section \<open>What the specification compares with\<close>


text \<open>The mixdown with the drums left out of the overlay stage.\<close>

definition stems_backing_without_drums :: "stems \<Rightarrow> int \<Rightarrow> segment" where
  "stems_backing_without_drums st max_len =
     (let base = canvas max_len (frame_rate (mix st))
      in overlay (overlay (overlay base (vocals st) 0) (bass st) 0) (other st) 0)"

section \<open>Example inputs\<close>

definition silent_stem :: segment where
  "silent_stem = \<lparr>frame_rate = 1000, channels = 2, frames = []\<rparr>"

definition example_world :: world where
  "example_world =
     \<lparr>files = [(''vocals.wav'', silent_stem), (''drums.wav'', silent_stem),
               (''bass.wav'', silent_stem), (''other.wav'', silent_stem),
               (''mix.wav'', silent_stem)],
      metadata = None, beat_track = [], noise_burst = (\<lambda>rate. silent_stem), trace = []\<rparr>"

definition zero_bpm_options :: options where
  "zero_bpm_options =
     \<lparr>auto_bpm = False, bpm = Some 0, with_click = True, drum_gain = Some (- 120), mp3 = False\<rparr>"

definition bass_missing_world :: world where
  "bass_missing_world =
     \<lparr>files = [(''vocals.wav'', silent_stem), (''drums.wav'', silent_stem),
               (''other.wav'', silent_stem), (''mix.wav'', silent_stem)],
      metadata = None, beat_track = [], noise_burst = (\<lambda>rate. silent_stem), trace = []\<rparr>"

definition mono_stem :: segment where
  "mono_stem = \<lparr>frame_rate = 1000, channels = 1, frames = [[1], [- 1]]\<rparr>"

definition mono_world :: world where
  "mono_world =
     \<lparr>files = [(''vocals.wav'', mono_stem)],
      metadata = None, beat_track = [], noise_burst = (\<lambda>rate. silent_stem), trace = []\<rparr>"

definition drum_hit :: segment where
  "drum_hit = \<lparr>frame_rate = 1000, channels = 2, frames = [[- 16384, - 16384]]\<rparr>"

definition quiet_frame :: segment where
  "quiet_frame = \<lparr>frame_rate = 1000, channels = 2, frames = [[0, 0]]\<rparr>"

definition odd_stem :: segment where
  "odd_stem = \<lparr>frame_rate = 3000, channels = 2, frames = [[0, 0], [0, 0], [0, 0], [0, 0]]\<rparr>"

definition drum_only_stems :: stems where
  "drum_only_stems =
     \<lparr>vocals = quiet_frame, drums = drum_hit, bass = quiet_frame, other = quiet_frame,
      mix = quiet_frame\<rparr>"

definition vocal_note :: segment where
  "vocal_note = \<lparr>frame_rate = 1000, channels = 2, frames = [[8192, 8192]]\<rparr>"

definition vocal_and_drum_stems :: stems where
  "vocal_and_drum_stems =
     \<lparr>vocals = vocal_note, drums = drum_hit, bass = quiet_frame, other = quiet_frame,
      mix = quiet_frame\<rparr>"

section \<open>Fixed-tempo beat grid\<close>




















section \<open>Missing stems\<close>

lemma check_required_ok:
  "\<forall>n\<in>set ns. path_exists w n \<Longrightarrow> check_required w ns = (w, Inr ())"
  by (induction ns) auto

lemma check_required_missing:
  "n \<in> set ns \<Longrightarrow> \<not> path_exists w n \<Longrightarrow>
     \<exists>m\<in>set ns. \<not> path_exists w m \<and> check_required w ns = (w, Inl (FileNotFoundError m))"
  by (induction ns) auto

lemma beats_of_invalid_bpm:
  "with_click opts \<Longrightarrow> \<not> auto_bpm opts \<Longrightarrow> (\<forall>b. bpm opts = Some b \<longrightarrow> b \<le> 0) \<Longrightarrow>
     beats_of w opts max_len = Some []"
  by (auto simp: beats_of_def split: option.splits)

lemma make_backing_body_proceeds:
  assumes ex: "\<forall>n\<in>set required. path_exists w n"
      and b: "\<forall>w' max_len. beats_of w' opts max_len \<noteq> None"
  shows "\<exists>w'. make_backing_body w opts = Some (w', Inr ()) \<and> path_exists w' ''backing.wav''"
proof -
  from ex obtain v d b' o' m where f:
    "map_of (files w) ''vocals.wav'' = Some v" "map_of (files w) ''drums.wav'' = Some d"
    "map_of (files w) ''bass.wav'' = Some b'" "map_of (files w) ''other.wav'' = Some o'"
    "map_of (files w) ''mix.wav'' = Some m"
    by (auto simp: required_def path_exists_def)
  show ?thesis
    using b f
    by (auto simp: make_backing_body_def check_required_ok[OF ex] load_seg_def Let_def
        export_def path_exists_def split: option.splits)
qed

lemma make_backing_proceeds:
  assumes "\<forall>n\<in>set required. path_exists w n"
      and "\<forall>w' max_len. beats_of w' opts max_len \<noteq> None"
  shows "\<exists>w'. make_backing w opts = Some (w', Inr ()) \<and> path_exists w' ''backing.wav''"
  using make_backing_body_proceeds[OF assms] by (auto simp: make_backing_def)

lemma example_world_complete: "\<forall>n\<in>set required. path_exists example_world n"
  by (simp add: required_def path_exists_def example_world_def)

text \<open>
  C5. When one of the five required files is absent from the stems directory, the run fails
  with exit code 1 caused by a \<open>FileNotFoundError\<close> that names an absent file, and the
  directory and the trace are as before: no stem was loaded and no file was written.
\<close>

theorem missing_stem_fails_first:
  assumes "n \<in> set required" "\<not> path_exists w n"
  shows "\<exists>m\<in>set required. \<not> path_exists w m \<and>
           make_backing w opts = Some (w, Inl (Exit 1 (FileNotFoundError m)))"
proof -
  from check_required_missing[OF assms] obtain m where
    m: "m \<in> set required" "\<not> path_exists w m"
       "check_required w required = (w, Inl (FileNotFoundError m))"
    by blast
  then have "make_backing w opts = Some (w, Inl (Exit 1 (FileNotFoundError m)))"
    by (simp add: make_backing_def make_backing_body_def)
  with m show ?thesis by blast
qed

theorem missing_stem_fails_first_witness:
  "''bass.wav'' \<in> set required \<and> \<not> path_exists bass_missing_world ''bass.wav'' \<and>
   make_backing bass_missing_world zero_bpm_options =
     Some (bass_missing_world, Inl (Exit 1 (FileNotFoundError ''bass.wav'')))"
proof -
  have a: "''bass.wav'' \<in> set required" by (simp add: required_def)
  have b: "\<not> path_exists bass_missing_world ''bass.wav''"
    by (simp add: path_exists_def bass_missing_world_def)
  from missing_stem_fails_first[OF a b, of zero_bpm_options] obtain m where
    m: "m \<in> set required" "\<not> path_exists bass_missing_world m"
       "make_backing bass_missing_world zero_bpm_options =
          Some (bass_missing_world, Inl (Exit 1 (FileNotFoundError m)))"
    by blast
  from m(1,2) have "m = ''bass.wav''"
    by (auto simp: required_def path_exists_def bass_missing_world_def)
  with a b m(3) show ?thesis by simp
qed

section \<open>Non-positive tempo\<close>

text \<open>
  C7 as stated (the builder fails with an error for a tempo that is zero, negative or absent)
  does not hold: with \<^verbatim>\<open>--with-click --bpm 0\<close> on a complete directory the grid is empty and
  the run succeeds.
\<close>

theorem invalid_bpm_counterexample:
  "beats_of example_world zero_bpm_options 0 = Some [] \<and>
   map_option snd (make_backing example_world zero_bpm_options) = Some (Inr ())"
proof -
  have b: "\<forall>w' max_len. beats_of w' zero_bpm_options max_len \<noteq> None"
    by (simp add: beats_of_def zero_bpm_options_def)
  from make_backing_proceeds[OF example_world_complete b]
  show ?thesis by (auto simp: beats_of_def zero_bpm_options_def)
qed

text \<open>
  C7, amended. In fixed-tempo mode with a tempo that is absent, zero or negative no error is
  raised: the beat grid is empty, the click stage leaves the backing unchanged, and on a
  complete directory the run succeeds and writes \<^verbatim>\<open>backing.wav\<close>.
\<close>

theorem invalid_bpm_empty_grid:
  assumes "with_click opts" "\<not> auto_bpm opts" "\<forall>b. bpm opts = Some b \<longrightarrow> b \<le> 0"
  shows "beats_of w opts max_len = Some [] \<and>
         click_stage w rate backing max_len [] = backing \<and>
         ((\<forall>n\<in>set required. path_exists w n) \<longrightarrow>
            (\<exists>w'. make_backing w opts = Some (w', Inr ()) \<and> path_exists w' ''backing.wav''))"
proof -
  have b: "\<forall>w' max_len. beats_of w' opts max_len \<noteq> None"
    using beats_of_invalid_bpm[OF assms] by simp
  show ?thesis
    using beats_of_invalid_bpm[OF assms] make_backing_proceeds[OF _ b]
    by (simp add: click_stage_def)
qed

theorem invalid_bpm_empty_grid_witness:
  "with_click zero_bpm_options \<and> \<not> auto_bpm zero_bpm_options \<and>
   bpm zero_bpm_options = Some 0 \<and>
   beats_of example_world zero_bpm_options 0 = Some [] \<and>
   (\<exists>w'. make_backing example_world zero_bpm_options = Some (w', Inr ()) \<and>
         path_exists w' ''backing.wav'')"
proof -
  have a: "with_click zero_bpm_options" "\<not> auto_bpm zero_bpm_options"
    "\<forall>b. bpm zero_bpm_options = Some b \<longrightarrow> b \<le> 0"
    by (simp_all add: zero_bpm_options_def)
  have b: "bpm zero_bpm_options = Some 0" by (simp add: zero_bpm_options_def)
  from invalid_bpm_empty_grid[OF a, of example_world 0] a b example_world_complete
  show ?thesis by blast
qed

section \<open>Click positions\<close>






section \<open>Click level\<close>

text \<open>
  C9. For every \<open>level_db\<close> the two-branch gain expression of the click generator (subtract
  \<open>max 0 (- level_db)\<close> below zero, add \<open>level_db\<close> otherwise) gives the same buffer as adding
  \<open>level_db\<close> unconditionally; the two branches agree at and around 0 dB.
\<close>

theorem click_level_uniform:
  "make_click_sample burst level_db = make_click_sample_uniform burst level_db"
  by (simp add: make_click_sample_def make_click_sample_uniform_def seg_sub_def seg_add_def)

section \<open>Channel count\<close>

lemma length_remix: "length (remix n fr) = n"
  by (simp add: remix_def)

lemma set_channels_width: "list_all (\<lambda>fr. length fr = n) (frames (set_channels n s))"
  by (simp add: set_channels_def list_all_iff length_remix)

lemma channels_set_channels: "channels (set_channels n s) = n"
  by (simp add: set_channels_def)

text \<open>
  C10. Every buffer that \<^verbatim>\<open>_load_seg\<close> returns has two channels, each of its frames holding
  two samples, whatever the channel count of the file; the canvas has two channels as well,
  and the gain of the drums keeps the channel count. The loader itself establishes the
  common channel count of the buffers that are mixed.
\<close>

theorem loader_gives_two_channels:
  "(load_seg w path = (w', Inr s) \<longrightarrow>
      channels s = 2 \<and> list_all (\<lambda>fr. length fr = 2) (frames s))
   \<and> channels (canvas max_len rate) = 2
   \<and> list_all (\<lambda>fr. length fr = 2) (frames (canvas max_len rate))
   \<and> channels (attenuate g d) = channels d"
  by (auto simp: load_seg_def canvas_def channels_set_channels set_channels_width
      attenuate_def seg_add_def apply_gain_def split: option.splits)

theorem loader_gives_two_channels_witness:
  "load_seg mono_world ''vocals.wav'' =
     (mono_world\<lparr>trace := [Loaded ''vocals.wav'']\<rparr>,
      Inr \<lparr>frame_rate = 1000, channels = 2, frames = [[1, 1], [- 1, - 1]]\<rparr>)
   \<and> channels \<lparr>frame_rate = 1000, channels = 2, frames = [[1, 1], [- 1, - 1 :: real]]\<rparr> = 2
   \<and> list_all (\<lambda>fr. length fr = 2)
        (frames \<lparr>frame_rate = 1000, channels = 2, frames = [[1, 1], [- 1, - 1 :: real]]\<rparr>)"
proof -
  have l: "load_seg mono_world ''vocals.wav'' =
     (mono_world\<lparr>trace := [Loaded ''vocals.wav'']\<rparr>,
      Inr \<lparr>frame_rate = 1000, channels = 2, frames = [[1, 1], [- 1, - 1]]\<rparr>)"
    by (simp add: load_seg_def mono_world_def mono_stem_def set_channels_def remix_def numeral_2_eq_2)
  from loader_gives_two_channels[of mono_world "''vocals.wav''"
      "mono_world\<lparr>trace := [Loaded ''vocals.wav'']\<rparr>"
      "\<lparr>frame_rate = 1000, channels = 2, frames = [[1, 1], [- 1, - 1]]\<rparr>"] l
  show ?thesis by blast
qed

section \<open>Overlay order\<close>

lemma add_frame_commute: "add_frame (add_frame x y) z = add_frame (add_frame x z) y"
  unfolding add_frame_def
proof (induction x arbitrary: y z)
  case Nil
  then show ?case by simp
next
  case (Cons a x)
  then show ?case by (cases y; cases z) simp_all
qed

lemma mix_at_commute:
  "mix_at (mix_at xs ys 0) zs 0 = mix_at (mix_at xs zs 0) ys 0"
proof (induction xs arbitrary: ys zs)
  case Nil
  then show ?case by simp
next
  case (Cons x xs)
  then show ?case by (cases ys; cases zs) (simp_all add: add_frame_commute)
qed

lemma overlay_commute:
  "overlay (overlay base s 0) t 0 = overlay (overlay base t 0) s 0"
  by (simp add: overlay_def ms_to_frames_def mix_at_commute)

lemma overlay_fold_perm:
  assumes "mset segs = mset segs'"
  shows "foldl (\<lambda>acc s. overlay acc s 0) base segs = foldl (\<lambda>acc s. overlay acc s 0) base segs'"
proof -
  have "fold (\<lambda>s acc. overlay acc s 0) segs = fold (\<lambda>s acc. overlay acc s 0) segs'"
    by (rule fold_multiset_equiv[OF _ assms]) (simp add: fun_eq_iff overlay_commute)
  then show ?thesis by (simp add: foldl_conv_fold)
qed

text \<open>
  C8. Overlaying the four stems (vocals, bass, other, attenuated drums) onto the canvas in any
  order gives the buffer of the fixed order of the source, overlay being a sample-wise sum.
\<close>

theorem overlay_order_irrelevant:
  "mset segs = mset [v, b, o', d] \<Longrightarrow>
     foldl (\<lambda>acc s. overlay acc s 0) base segs = stem_mix base v b o' d"
  using overlay_fold_perm[of segs "[v, b, o', d]" base] by (simp add: stem_mix_def)

theorem overlay_order_irrelevant_witness:
  "mset [drum_hit, quiet_frame, mono_stem, silent_stem] =
     mset [silent_stem, mono_stem, quiet_frame, drum_hit] \<and>
   foldl (\<lambda>acc s. overlay acc s 0) (canvas 2 1000) [drum_hit, quiet_frame, mono_stem, silent_stem] =
     stem_mix (canvas 2 1000) silent_stem mono_stem quiet_frame drum_hit"
proof -
  have m: "mset [drum_hit, quiet_frame, mono_stem, silent_stem] =
     mset [silent_stem, mono_stem, quiet_frame, drum_hit]"
    by (simp add: add_mset_commute)
  from overlay_order_irrelevant[OF m] m show ?thesis by simp
qed

section \<open>Loudness normalization\<close>

lemma fold_max_ge: "a \<le> fold (\<lambda>x m. max m \<bar>x\<bar>) xs (a :: real)"
proof (induction xs arbitrary: a)
  case Nil
  then show ?case by simp
next
  case (Cons x xs)
  have "a \<le> max a \<bar>x\<bar>" by simp
  also have "\<dots> \<le> fold (\<lambda>x m. max m \<bar>x\<bar>) xs (max a \<bar>x\<bar>)" by (rule Cons.IH)
  finally show ?case by simp
qed

lemma peak_nonneg: "0 \<le> peak s"
  unfolding peak_def by (rule fold_max_ge)

lemma fold_max_scale:
  assumes "0 \<le> (c :: real)"
  shows "fold (\<lambda>x m. max m \<bar>x\<bar>) (map (\<lambda>x. x * c) xs) (a * c) =
         fold (\<lambda>x m. max m \<bar>x\<bar>) xs a * c"
proof (induction xs arbitrary: a)
  case Nil
  then show ?case by simp
next
  case (Cons x xs)
  have "max (a * c) \<bar>x * c\<bar> = max a \<bar>x\<bar> * c"
    using assms by (simp add: abs_mult max_mult_distrib_right)
  then show ?case using Cons.IH[of "max a \<bar>x\<bar>"] by simp
qed

lemma db_to_float_pos: "0 < db_to_float g"
  by (simp add: db_to_float_def)

lemma peak_apply_gain: "peak (apply_gain g s) = peak s * db_to_float g"
proof -
  have "concat (map (map (\<lambda>x. x * db_to_float g)) (frames s)) =
        map (\<lambda>x. x * db_to_float g) (concat (frames s))"
    by (simp add: map_concat)
  then show ?thesis
    using fold_max_scale[of "db_to_float g" "concat (frames s)" 0] db_to_float_pos[of g]
    by (simp add: peak_def apply_gain_def)
qed

lemma log_db_to_float: "20 * log 10 (db_to_float g) = g"
  by (simp add: db_to_float_def)

lemma normalize_peak:
  assumes "peak b \<noteq> 0"
  shows "max_dBFS (normalize b) = Db (- 1)"
proof -
  have p: "0 < peak b" using assms peak_nonneg[of b] by simp
  let ?g = "normalize_gain b"
  have g: "?g = - 1 - 20 * log 10 (peak b / max_possible_amplitude)"
    using assms by (simp add: normalize_gain_def max_dBFS_def)
  have pk: "peak (normalize b) = peak b * db_to_float ?g"
    by (simp add: normalize_def peak_apply_gain)
  have nz: "peak (normalize b) \<noteq> 0"
    using p db_to_float_pos[of ?g] by (simp add: pk)
  have m: "0 < peak b / max_possible_amplitude"
    using p by (simp add: max_possible_amplitude_def)
  have e: "peak (normalize b) / max_possible_amplitude =
        (peak b / max_possible_amplitude) * db_to_float ?g"
    by (simp add: pk)
  have "log 10 (peak (normalize b) / max_possible_amplitude) =
        log 10 (peak b / max_possible_amplitude) + log 10 (db_to_float ?g)"
    unfolding e using m db_to_float_pos[of ?g] by (rule log_mult_pos)
  then have "20 * log 10 (peak (normalize b) / max_possible_amplitude) =
        20 * log 10 (peak b / max_possible_amplitude) + ?g"
    using log_db_to_float[of ?g] by simp
  also have "\<dots> = - 1" by (simp add: g)
  finally show ?thesis using nz by (simp add: max_dBFS_def)
qed

lemma normalize_silence:
  assumes "peak b = 0"
  shows "normalize_gain b = 0 \<and> normalize b = b"
  using assms
  by (simp add: normalize_gain_def max_dBFS_def normalize_def apply_gain_def db_to_float_def)

lemma max_dBFS_NegInf: "(max_dBFS b = NegInf) = (peak b = 0)"
  by (simp add: max_dBFS_def)


lemma peak_drum_hit: "peak drum_hit = 16384"
  by (simp add: peak_def drum_hit_def)



section \<open>Mixdown duration\<close>

lemma duration_seconds_nonneg: "0 \<le> duration_seconds s"
  by (simp add: duration_seconds_def)

lemma duration_ms_floor: "duration_ms s = \<lfloor>duration_seconds s * 1000\<rfloor>"
  using duration_seconds_nonneg[of s] by (simp add: duration_ms_def py_int_def)

lemma fold_max_Max:
  "fold (\<lambda>s m. max m (f s)) segs (a :: int) = Max (insert a (f ` set segs))"
proof (induction segs arbitrary: a)
  case Nil
  then show ?case by simp
next
  case (Cons s segs)
  have "Max (insert (max a (f s)) (f ` set segs)) = Max (insert a (insert (f s) (f ` set segs)))"
    by (cases "set segs = {}") (simp_all add: max.assoc)
  with Cons show ?case by simp
qed

lemma longest_duration_ms_Max:
  "longest_duration_ms (s # segs) = Inr (Max (duration_ms ` set (s # segs)))"
  by (simp add: fold_max_Max)

lemma Max_duration_bounds:
  assumes "finite S" "S \<noteq> {}"
  shows "Max (duration_seconds ` S) * 1000 - 1 < real_of_int (Max (duration_ms ` S))"
    and "real_of_int (Max (duration_ms ` S)) \<le> Max (duration_seconds ` S) * 1000"
proof -
  have fin: "finite (duration_seconds ` S)" "finite (duration_ms ` S)"
    and ne: "duration_seconds ` S \<noteq> {}" "duration_ms ` S \<noteq> {}"
    using assms by simp_all
  obtain x where x: "x \<in> S" "duration_seconds x = Max (duration_seconds ` S)"
    using Max_in[OF fin(1) ne(1)] by auto
  have "duration_ms x \<le> Max (duration_ms ` S)"
    using x(1) fin(2) by simp
  moreover have "duration_seconds x * 1000 - 1 < real_of_int (duration_ms x)"
    unfolding duration_ms_floor by linarith
  ultimately show "Max (duration_seconds ` S) * 1000 - 1 < real_of_int (Max (duration_ms ` S))"
    using x(2) by linarith
  obtain y where y: "y \<in> S" "duration_ms y = Max (duration_ms ` S)"
    using Max_in[OF fin(2) ne(2)] by auto
  have "duration_seconds y \<le> Max (duration_seconds ` S)"
    using y(1) fin(1) by simp
  moreover have "real_of_int (duration_ms y) \<le> duration_seconds y * 1000"
    unfolding duration_ms_floor by linarith
  ultimately show "real_of_int (Max (duration_ms ` S)) \<le> Max (duration_seconds ` S) * 1000"
    using y(2) by linarith
qed

lemma length_mix_at: "length (mix_at xs ys off) = length xs"
  by (induction xs ys off rule: mix_at.induct) simp_all

lemma length_frames_overlay: "length (frames (overlay base s pos)) = length (frames base)"
  by (simp add: overlay_def length_mix_at)

lemma length_frames_apply_gain: "length (frames (apply_gain g s)) = length (frames s)"
  by (simp add: apply_gain_def)

lemma length_frames_overlay_clicks:
  "length (frames (overlay_clicks backing click max_len beats)) = length (frames backing)"
  by (induction beats arbitrary: backing) (simp_all add: Let_def length_frames_overlay)

lemma length_frames_click_stage:
  "length (frames (click_stage w rate backing max_len beats)) = length (frames backing)"
  by (simp add: click_stage_def length_frames_overlay_clicks)

lemma length_frames_stems_backing:
  "length (frames (stems_backing g st max_len)) = length (frames (canvas max_len (frame_rate (mix st))))"
  by (simp add: stems_backing_def stem_mix_def Let_def length_frames_overlay)

lemma length_frames_canvas:
  "length (frames (canvas max_len rate)) = nat \<lfloor>real rate * (real_of_int max_len / 1000)\<rfloor>"
  by (simp add: canvas_def set_channels_def silent_def)

lemma frame_rate_canvas: "frame_rate (canvas max_len rate) = rate"
  by (simp add: canvas_def set_channels_def silent_def)

lemma canvas_duration_bounds:
  assumes "0 < rate" "0 \<le> max_len"
  shows "duration_seconds (canvas max_len rate) * 1000 \<le> real_of_int max_len"
    and "real_of_int max_len - 1000 / real rate < duration_seconds (canvas max_len rate) * 1000"
proof -
  let ?x = "real rate * (real_of_int max_len / 1000)"
  have nn: "0 \<le> ?x" using assms by simp
  then have fl: "real (nat \<lfloor>?x\<rfloor>) = real_of_int \<lfloor>?x\<rfloor>" by simp
  have d: "duration_seconds (canvas max_len rate) = real_of_int \<lfloor>?x\<rfloor> / real rate"
    using assms fl by (simp add: duration_seconds_def frame_rate_canvas length_frames_canvas)
  have r: "0 < real rate" using assms by simp
  have x: "?x / real rate * 1000 = real_of_int max_len"
    using r by simp
  have "real_of_int \<lfloor>?x\<rfloor> \<le> ?x" by linarith
  then have "real_of_int \<lfloor>?x\<rfloor> / real rate * 1000 \<le> ?x / real rate * 1000"
    using r by (intro mult_right_mono divide_right_mono) simp_all
  then show "duration_seconds (canvas max_len rate) * 1000 \<le> real_of_int max_len"
    unfolding d x .
  have y: "(?x - 1) / real rate * 1000 = real_of_int max_len - 1000 / real rate"
    using r by (simp add: diff_divide_distrib)
  have "?x - 1 < real_of_int \<lfloor>?x\<rfloor>" by linarith
  then have "(?x - 1) / real rate * 1000 < real_of_int \<lfloor>?x\<rfloor> / real rate * 1000"
    using r by (intro mult_strict_right_mono divide_strict_right_mono) simp_all
  then show "real_of_int max_len - 1000 / real rate < duration_seconds (canvas max_len rate) * 1000"
    unfolding d y .
qed

text \<open>
  C3. For the five loaded stems, whatever their lengths, \<^verbatim>\<open>_longest_duration_ms\<close> returns a
  mixdown duration \<open>max_len\<close> within one millisecond of the longest stem duration
  (\<open>1000 * D - 1 < max_len \<le> 1000 * D\<close>). The canvas is created with that duration: it holds
  \<open>floor (rate * max_len / 1000)\<close> frames, which is \<open>max_len\<close> milliseconds up to one frame, and
  the final backing has the frame count of the canvas.
\<close>

theorem mixdown_duration_is_longest:
  "(\<exists>n. longest_duration_ms [v, d, b, o', m] = Inr n) \<and>
   (longest_duration_ms [v, d, b, o', m] = Inr max_len \<longrightarrow>
      Max (duration_seconds ` {v, d, b, o', m}) * 1000 - 1 < real_of_int max_len \<and>
      real_of_int max_len \<le> Max (duration_seconds ` {v, d, b, o', m}) * 1000 \<and>
      length (frames (canvas max_len (frame_rate m))) =
        nat \<lfloor>real (frame_rate m) * (real_of_int max_len / 1000)\<rfloor> \<and>
      (0 < frame_rate m \<longrightarrow>
         duration_seconds (canvas max_len (frame_rate m)) * 1000 \<le> real_of_int max_len \<and>
         real_of_int max_len - 1000 / real (frame_rate m)
           < duration_seconds (canvas max_len (frame_rate m)) * 1000) \<and>
      length (frames (normalize (click_stage w (frame_rate m)
          (stems_backing g \<lparr>vocals = v, drums = d, bass = b, other = o', mix = m\<rparr> max_len)
          max_len beats))) =
        length (frames (canvas max_len (frame_rate m))))"
proof (intro conjI impI)
  show "\<exists>n. longest_duration_ms [v, d, b, o', m] = Inr n" by simp
next
  assume h: "longest_duration_ms [v, d, b, o', m] = Inr max_len"
  have ml: "max_len = Max (duration_ms ` {v, d, b, o', m})"
    using h unfolding longest_duration_ms_Max by simp
  show "Max (duration_seconds ` {v, d, b, o', m}) * 1000 - 1 < real_of_int max_len"
    unfolding ml by (rule Max_duration_bounds) simp_all
  show "real_of_int max_len \<le> Max (duration_seconds ` {v, d, b, o', m}) * 1000"
    unfolding ml by (rule Max_duration_bounds) simp_all
  have "0 \<le> duration_ms v" by (simp add: duration_ms_floor duration_seconds_nonneg)
  also have "duration_ms v \<le> max_len" unfolding ml by simp
  finally have nn: "0 \<le> max_len" .
  show "duration_seconds (canvas max_len (frame_rate m)) * 1000 \<le> real_of_int max_len"
    if "0 < frame_rate m" using canvas_duration_bounds(1)[OF that nn] .
  show "real_of_int max_len - 1000 / real (frame_rate m)
           < duration_seconds (canvas max_len (frame_rate m)) * 1000"
    if "0 < frame_rate m" using canvas_duration_bounds(2)[OF that nn] .
  show "length (frames (canvas max_len (frame_rate m))) =
        nat \<lfloor>real (frame_rate m) * (real_of_int max_len / 1000)\<rfloor>"
    by (rule length_frames_canvas)
  show "length (frames (normalize (click_stage w (frame_rate m)
          (stems_backing g \<lparr>vocals = v, drums = d, bass = b, other = o', mix = m\<rparr> max_len)
          max_len beats))) =
        length (frames (canvas max_len (frame_rate m)))"
    by (simp add: normalize_def length_frames_apply_gain length_frames_click_stage
        length_frames_stems_backing)
qed

lemma ex_longest: "longest_duration_ms [odd_stem, drum_hit, quiet_frame, silent_stem, quiet_frame] = Inr 1"
proof -
  have a: "duration_ms odd_stem = 1"
    by (simp add: duration_ms_floor duration_seconds_def odd_stem_def floor_eq_iff)
  have b: "duration_ms drum_hit = 1" "duration_ms quiet_frame = 1" "duration_ms silent_stem = 0"
    by (simp_all add: duration_ms_floor duration_seconds_def drum_hit_def quiet_frame_def silent_stem_def)
  show ?thesis by (simp add: a b)
qed

lemma rate_quiet_frame: "0 < frame_rate quiet_frame"
  by (simp add: quiet_frame_def)

theorem mixdown_duration_is_longest_witness:
  "longest_duration_ms [odd_stem, drum_hit, quiet_frame, silent_stem, quiet_frame] = Inr 1 \<and>
   Max (duration_seconds ` {odd_stem, drum_hit, quiet_frame, silent_stem, quiet_frame}) * 1000 - 1
     < real_of_int 1 \<and>
   real_of_int 1 \<le>
     Max (duration_seconds ` {odd_stem, drum_hit, quiet_frame, silent_stem, quiet_frame}) * 1000 \<and>
   0 < frame_rate quiet_frame \<and>
   duration_seconds (canvas 1 (frame_rate quiet_frame)) * 1000 \<le> real_of_int 1 \<and>
   real_of_int 1 - 1000 / real (frame_rate quiet_frame)
     < duration_seconds (canvas 1 (frame_rate quiet_frame)) * 1000 \<and>
   length (frames (normalize (click_stage example_world (frame_rate quiet_frame)
          (stems_backing (Some (- 120))
             \<lparr>vocals = odd_stem, drums = drum_hit, bass = quiet_frame, other = silent_stem,
              mix = quiet_frame\<rparr> 1)
          1 [0]))) =
     length (frames (canvas 1 (frame_rate quiet_frame)))"
  using mixdown_duration_is_longest[of odd_stem drum_hit quiet_frame silent_stem quiet_frame 1
      example_world "Some (- 120)" "[0]"] ex_longest rate_quiet_frame
  by blast

section \<open>Muting the drums by gain\<close>

lemma db_to_float_minus_120: "db_to_float (- 120) = 1 / 1000000"
  by (simp add: db_to_float_def powr_neg_numeral)

lemma fold_max_mem: "x \<in> set xs \<Longrightarrow> \<bar>x\<bar> \<le> fold (\<lambda>x m. max m \<bar>x\<bar>) xs (a :: real)"
proof (induction xs arbitrary: a)
  case Nil
  then show ?case by simp
next
  case (Cons y xs)
  show ?case
  proof (cases "x = y")
    case True
    have "\<bar>x\<bar> \<le> max a \<bar>y\<bar>" using True by simp
    also have "\<dots> \<le> fold (\<lambda>x m. max m \<bar>x\<bar>) xs (max a \<bar>y\<bar>)" by (rule fold_max_ge)
    finally show ?thesis by simp
  next
    case False
    with Cons.prems have "x \<in> set xs" by simp
    from Cons.IH[OF this] show ?thesis by simp
  qed
qed

lemma sample_le_peak:
  assumes "i < length (frames s)" "j < length (frames s ! i)"
  shows "\<bar>frames s ! i ! j\<bar> \<le> peak s"
proof -
  have "frames s ! i \<in> set (frames s)" using assms(1) by simp
  moreover have "frames s ! i ! j \<in> set (frames s ! i)" using assms(2) by simp
  ultimately have "frames s ! i ! j \<in> set (concat (frames s))" by auto
  then show ?thesis unfolding peak_def by (rule fold_max_mem)
qed

lemma mix_at_nth:
  "i < length xs \<Longrightarrow>
     mix_at xs ys 0 ! i = (if i < length ys then add_frame (xs ! i) (ys ! i) else xs ! i)"
proof (induction xs arbitrary: ys i)
  case Nil
  then show ?case by simp
next
  case (Cons x xs)
  then show ?case by (cases ys; cases i) simp_all
qed

lemma add_frame_nth:
  "j < length x \<Longrightarrow> j < length y \<Longrightarrow> add_frame x y ! j = x ! j + y ! j"
  by (simp add: add_frame_def)

lemma length_add_frame: "length (add_frame x y) = min (length x) (length y)"
  by (simp add: add_frame_def)

lemma mix_at_width:
  "list_all (\<lambda>fr. length fr = n) xs \<Longrightarrow> list_all (\<lambda>fr. length fr = n) ys \<Longrightarrow>
     list_all (\<lambda>fr. length fr = n) (mix_at xs ys 0)"
proof (induction xs arbitrary: ys)
  case Nil
  then show ?case by simp
next
  case (Cons x xs)
  then show ?case by (cases ys) (simp_all add: length_add_frame)
qed

lemma channels_overlay: "channels (overlay base s pos) = channels base"
  by (simp add: overlay_def)

lemma overlay_width:
  assumes "list_all (\<lambda>fr. length fr = channels base) (frames base)"
  shows "list_all (\<lambda>fr. length fr = channels base) (frames (overlay base s 0))"
  using assms set_channels_width[of "channels base" s]
  by (simp add: overlay_def ms_to_frames_def mix_at_width)

lemma without_drums_wf:
  "channels (stems_backing_without_drums st max_len) = 2 \<and>
   list_all (\<lambda>fr. length fr = 2) (frames (stems_backing_without_drums st max_len))"
proof -
  let ?c = "canvas max_len (frame_rate (mix st))"
  have c: "channels ?c = 2" "list_all (\<lambda>fr. length fr = channels ?c) (frames ?c)"
    using set_channels_width[of 2 "silent max_len (frame_rate (mix st))"]
    by (simp_all add: canvas_def channels_set_channels)
  let ?a = "overlay ?c (vocals st) 0"
  have a: "channels ?a = 2" "list_all (\<lambda>fr. length fr = channels ?a) (frames ?a)"
    using overlay_width[OF c(2)] c(1) by (simp_all add: channels_overlay)
  let ?b = "overlay ?a (bass st) 0"
  have b: "channels ?b = 2" "list_all (\<lambda>fr. length fr = channels ?b) (frames ?b)"
    using overlay_width[OF a(2)] a(1) by (simp_all add: channels_overlay)
  let ?o = "overlay ?b (other st) 0"
  have o: "channels ?o = 2" "list_all (\<lambda>fr. length fr = channels ?o) (frames ?o)"
    using overlay_width[OF b(2)] b(1) by (simp_all add: channels_overlay)
  show ?thesis using o by (simp add: stems_backing_without_drums_def Let_def)
qed

lemma stems_backing_as_overlay:
  "stems_backing (Some g) st max_len =
     overlay (stems_backing_without_drums st max_len) (apply_gain g (drums st)) 0"
  by (simp add: stems_backing_def stems_backing_without_drums_def stem_mix_def Let_def
      attenuate_def seg_add_def)

lemma remix_same: "length fr = n \<Longrightarrow> remix n fr = fr"
  by (simp add: remix_def)

lemma set_channels_same:
  "list_all (\<lambda>fr. length fr = n) (frames s) \<Longrightarrow> frames (set_channels n s) = frames s"
  by (simp add: set_channels_def list_all_iff remix_same map_idI)

lemma mix_at_swap: "mix_at (mix_at xs ys 0) zs off = mix_at (mix_at xs zs off) ys 0"
proof (induction xs arbitrary: ys zs off)
  case Nil
  then show ?case by simp
next
  case (Cons x xs)
  show ?case
  proof (cases off)
    case 0
    then show ?thesis by (simp add: mix_at_commute)
  next
    case (Suc k)
    then show ?thesis using Cons.IH by (cases ys) simp_all
  qed
qed

lemma overlay_swap: "overlay (overlay base s 0) t p = overlay (overlay base t p) s 0"
  by (simp add: overlay_def ms_to_frames_def mix_at_swap)

lemma overlay_clicks_swap:
  "overlay_clicks (overlay base s 0) click max_len ts =
     overlay (overlay_clicks base click max_len ts) s 0"
  by (induction ts arbitrary: base) (simp_all add: Let_def overlay_swap)

lemma click_stage_swap:
  "click_stage w rate (overlay base s 0) max_len beats =
     overlay (click_stage w rate base max_len beats) s 0"
  by (simp add: click_stage_def overlay_clicks_swap)

lemma mix_at_width_any:
  "list_all (\<lambda>fr. length fr = n) xs \<Longrightarrow> list_all (\<lambda>fr. length fr = n) ys \<Longrightarrow>
     list_all (\<lambda>fr. length fr = n) (mix_at xs ys off)"
  by (induction xs ys off rule: mix_at.induct) (simp_all add: length_add_frame)

lemma overlay_width_any:
  assumes "list_all (\<lambda>fr. length fr = channels base) (frames base)"
  shows "list_all (\<lambda>fr. length fr = channels base) (frames (overlay base s p))"
  using assms set_channels_width[of "channels base" s]
  by (simp add: overlay_def mix_at_width_any)

lemma overlay_clicks_wf:
  "channels X = c \<and> list_all (\<lambda>fr. length fr = c) (frames X) \<Longrightarrow>
     channels (overlay_clicks X click max_len ts) = c \<and>
     list_all (\<lambda>fr. length fr = c) (frames (overlay_clicks X click max_len ts))"
proof (induction ts arbitrary: X)
  case Nil
  then show ?case by simp
next
  case (Cons t ts)
  have "channels (overlay X click p) = c \<and>
        list_all (\<lambda>fr. length fr = c) (frames (overlay X click p))" for p
    using Cons.prems overlay_width_any[of X click p] by (simp add: channels_overlay)
  with Cons.prems show ?case by (simp add: Let_def Cons.IH)
qed

lemma click_stage_wf:
  "channels X = c \<and> list_all (\<lambda>fr. length fr = c) (frames X) \<Longrightarrow>
     channels (click_stage w rate X max_len beats) = c \<and>
     list_all (\<lambda>fr. length fr = c) (frames (click_stage w rate X max_len beats))"
  using overlay_clicks_wf[of X c] by (simp add: click_stage_def)

lemma overlay_nth:
  assumes wX: "list_all (\<lambda>fr. length fr = channels X) (frames X)"
      and wD: "list_all (\<lambda>fr. length fr = channels X) (frames D)"
      and i: "i < length (frames X)" and j: "j < channels X"
  shows "frames (overlay X D 0) ! i ! j =
           frames X ! i ! j + (if i < length (frames D) then frames D ! i ! j else 0)"
proof -
  have f: "frames (overlay X D 0) = mix_at (frames X) (frames D) 0"
    by (simp add: overlay_def set_channels_same[OF wD] ms_to_frames_def)
  have lX: "length (frames X ! i) = channels X"
    using wX i by (simp add: list_all_length)
  show ?thesis
  proof (cases "i < length (frames D)")
    case True
    have lD: "length (frames D ! i) = channels X"
      using wD True by (simp add: list_all_length)
    show ?thesis using i True j lX lD by (simp add: f mix_at_nth add_frame_nth)
  next
    case False
    then show ?thesis using i by (simp add: f mix_at_nth)
  qed
qed

lemma overlay_residue:
  assumes wX: "list_all (\<lambda>fr. length fr = channels X) (frames X)"
      and wD: "list_all (\<lambda>fr. length fr = channels X) (frames D)"
      and i: "i < length (frames X)" and j: "j < channels X"
  shows "\<bar>frames (overlay X D 0) ! i ! j - frames X ! i ! j\<bar> \<le> peak D"
proof (cases "i < length (frames D)")
  case True
  have lD: "length (frames D ! i) = channels X"
    using wD True by (simp add: list_all_length)
  have "\<bar>frames D ! i ! j\<bar> \<le> peak D"
    using True j lD by (intro sample_le_peak) simp_all
  then show ?thesis using overlay_nth[OF assms] True by simp
next
  case False
  then show ?thesis using overlay_nth[OF assms] peak_nonneg[of D] by simp
qed

lemma fold_max_le:
  "(\<forall>x\<in>set xs. \<bar>x\<bar> \<le> m) \<Longrightarrow> a \<le> m \<Longrightarrow> fold (\<lambda>x m. max m \<bar>x\<bar>) xs (a :: real) \<le> m"
  by (induction xs arbitrary: a) simp_all

lemma peak_le:
  assumes "\<forall>i<length (frames s). \<forall>j<length (frames s ! i). \<bar>frames s ! i ! j\<bar> \<le> m" "0 \<le> m"
  shows "peak s \<le> m"
proof -
  have "\<forall>x\<in>set (concat (frames s)). \<bar>x\<bar> \<le> m"
  proof
    fix x assume "x \<in> set (concat (frames s))"
    then obtain fr where fr: "fr \<in> set (frames s)" "x \<in> set fr" by auto
    then obtain i where i: "i < length (frames s)" "frames s ! i = fr"
      by (auto simp: in_set_conv_nth)
    from fr(2) obtain j where j: "j < length fr" "fr ! j = x"
      by (auto simp: in_set_conv_nth)
    from assms(1) i j show "\<bar>x\<bar> \<le> m" by auto
  qed
  then show ?thesis unfolding peak_def using assms(2) by (rule fold_max_le)
qed

lemma peak_overlay_le:
  assumes wX: "list_all (\<lambda>fr. length fr = channels X) (frames X)"
      and wD: "list_all (\<lambda>fr. length fr = channels X) (frames D)"
  shows "peak (overlay X D 0) \<le> peak X + peak D" "peak X \<le> peak (overlay X D 0) + peak D"
proof -
  let ?A = "overlay X D 0"
  have wA: "list_all (\<lambda>fr. length fr = channels X) (frames ?A)"
    using overlay_width_any[OF wX] .
  have lA: "length (frames ?A) = length (frames X)" by (rule length_frames_overlay)
  show "peak ?A \<le> peak X + peak D"
  proof (rule peak_le, intro allI impI)
    fix i j assume i: "i < length (frames ?A)" and j: "j < length (frames ?A ! i)"
    have iX: "i < length (frames X)" using i lA by simp
    have jX: "j < channels X" using wA i j by (simp add: list_all_length)
    have jX': "j < length (frames X ! i)" using wX iX jX by (simp add: list_all_length)
    have "\<bar>frames X ! i ! j\<bar> \<le> peak X" using iX jX' by (rule sample_le_peak)
    with overlay_residue[OF wX wD iX jX] show "\<bar>frames ?A ! i ! j\<bar> \<le> peak X + peak D"
      by linarith
  next
    show "0 \<le> peak X + peak D" using peak_nonneg[of X] peak_nonneg[of D] by simp
  qed
  show "peak X \<le> peak ?A + peak D"
  proof (rule peak_le, intro allI impI)
    fix i j assume iX: "i < length (frames X)" and j: "j < length (frames X ! i)"
    have jX: "j < channels X" using wX iX j by (simp add: list_all_length)
    have iA: "i < length (frames ?A)" using iX lA by simp
    have jA: "j < length (frames ?A ! i)" using wA iA jX by (simp add: list_all_length)
    have "\<bar>frames ?A ! i ! j\<bar> \<le> peak ?A" using iA jA by (rule sample_le_peak)
    with overlay_residue[OF wX wD iX jX] show "\<bar>frames X ! i ! j\<bar> \<le> peak ?A + peak D"
      by linarith
  next
    show "0 \<le> peak ?A + peak D" using peak_nonneg[of ?A] peak_nonneg[of D] by simp
  qed
qed

lemma normalize_factor:
  assumes "peak X \<noteq> 0"
  shows "db_to_float (normalize_gain X) = max_possible_amplitude * db_to_float (- 1) / peak X"
proof -
  have p: "0 < peak X" using assms peak_nonneg[of X] by simp
  have q: "0 < peak X / max_possible_amplitude"
    using p by (simp add: max_possible_amplitude_def)
  have g: "normalize_gain X = - 1 - 20 * log 10 (peak X / max_possible_amplitude)"
    using assms by (simp add: normalize_gain_def max_dBFS_def)
  have "db_to_float (normalize_gain X) =
        10 powr (- 1 / 20 - log 10 (peak X / max_possible_amplitude))"
    by (simp add: g db_to_float_def diff_divide_distrib)
  also have "\<dots> = 10 powr (- 1 / 20) / 10 powr (log 10 (peak X / max_possible_amplitude))"
    by (rule powr_diff)
  also have "10 powr (log 10 (peak X / max_possible_amplitude)) = peak X / max_possible_amplitude"
    using q by simp
  finally show ?thesis by (simp add: db_to_float_def)
qed

lemma frames_normalize_nth:
  assumes "peak X \<noteq> 0" "i < length (frames X)" "j < length (frames X ! i)"
  shows "frames (normalize X) ! i ! j =
           frames X ! i ! j * (max_possible_amplitude * db_to_float (- 1) / peak X)"
  using assms by (simp add: normalize_def apply_gain_def normalize_factor)

lemma normalized_close:
  fixes a b pA pB d F :: real
  assumes ab: "\<bar>a - b\<bar> \<le> d" and pp: "\<bar>pA - pB\<bar> \<le> d" and b: "\<bar>b\<bar> \<le> pB"
      and d: "d < pB" and F: "0 \<le> F"
  shows "\<bar>a * (F / pA) - b * (F / pB)\<bar> \<le> 2 * F * d / (pB - d)"
proof -
  have d0: "0 \<le> d" using ab by linarith
  have pB: "0 < pB" using d d0 by linarith
  have pA: "pB - d \<le> pA" using pp by linarith
  have pA0: "0 < pA" using pA d by linarith
  have e: "a * (F / pA) - b * (F / pB) = F * ((a - b) * pB + b * (pB - pA)) / (pA * pB)"
    using pA0 pB by (simp add: field_simps)
  have "\<bar>(a - b) * pB + b * (pB - pA)\<bar> \<le> \<bar>(a - b) * pB\<bar> + \<bar>b * (pB - pA)\<bar>"
    by (rule abs_triangle_ineq)
  also have "\<dots> = \<bar>a - b\<bar> * pB + \<bar>b\<bar> * \<bar>pB - pA\<bar>"
    using pB by (simp add: abs_mult)
  also have "\<dots> \<le> d * pB + pB * d"
  proof (rule add_mono)
    show "\<bar>a - b\<bar> * pB \<le> d * pB" using ab pB by (simp add: mult_right_mono)
    have "\<bar>pB - pA\<bar> \<le> d" using pp by linarith
    then show "\<bar>b\<bar> * \<bar>pB - pA\<bar> \<le> pB * d"
      using b by (intro mult_mono) simp_all
  qed
  finally have n: "\<bar>(a - b) * pB + b * (pB - pA)\<bar> \<le> 2 * d * pB" by simp
  have "\<bar>a * (F / pA) - b * (F / pB)\<bar> = F * \<bar>(a - b) * pB + b * (pB - pA)\<bar> / (pA * pB)"
    unfolding e using F pA0 pB by (simp add: abs_mult)
  also have "\<dots> \<le> F * (2 * d * pB) / (pA * pB)"
    using n F pA0 pB by (intro divide_right_mono mult_left_mono) simp_all
  also have "\<dots> = 2 * F * d / pA" using pB by simp
  also have "\<dots> \<le> 2 * F * d / (pB - d)"
    using pA d F d0 by (intro divide_left_mono) simp_all
  finally show ?thesis .
qed


lemma attenuate_gain: "attenuate (Some g) d = apply_gain g d"
  by (simp add: attenuate_def seg_add_def)

lemma attenuate_width:
  "list_all (\<lambda>fr. length fr = n) (frames d) \<Longrightarrow>
     list_all (\<lambda>fr. length fr = n) (frames (attenuate (Some g) d))"
  by (simp add: attenuate_gain apply_gain_def list_all_iff)

lemma clicked_with_drums:
  "click_stage w rate (stems_backing (Some g) st max_len) max_len beats =
     overlay (click_stage w rate (stems_backing_without_drums st max_len) max_len beats)
       (attenuate (Some g) (drums st)) 0"
  unfolding stems_backing_as_overlay attenuate_gain by (rule click_stage_swap)

lemma clicked_without_drums_wf:
  "channels (click_stage w rate (stems_backing_without_drums st max_len) max_len beats) = 2 \<and>
   list_all (\<lambda>fr. length fr = 2)
     (frames (click_stage w rate (stems_backing_without_drums st max_len) max_len beats))"
  using without_drums_wf[of st max_len] by (rule click_stage_wf)

lemma muted_residue:
  assumes wd: "list_all (\<lambda>fr. length fr = 2) (frames (drums st))"
      and i: "i < length (frames (click_stage w rate (stems_backing_without_drums st max_len)
                 max_len beats))"
      and j: "j < 2"
  shows "\<bar>frames (click_stage w rate (stems_backing (Some g) st max_len) max_len beats) ! i ! j -
          frames (click_stage w rate (stems_backing_without_drums st max_len) max_len beats) ! i ! j\<bar>
         \<le> peak (attenuate (Some g) (drums st))"
proof -
  let ?B = "click_stage w rate (stems_backing_without_drums st max_len) max_len beats"
  let ?D = "attenuate (Some g) (drums st)"
  note wf = clicked_without_drums_wf[of w rate st max_len beats]
  have wB: "list_all (\<lambda>fr. length fr = channels ?B) (frames ?B)" using wf by simp
  have wD: "list_all (\<lambda>fr. length fr = channels ?B) (frames ?D)"
    using attenuate_width[OF wd] wf by simp
  have j': "j < channels ?B" using j wf by simp
  show ?thesis unfolding clicked_with_drums by (rule overlay_residue[OF wB wD i j'])
qed

lemma muted_peaks:
  assumes wd: "list_all (\<lambda>fr. length fr = 2) (frames (drums st))"
  shows "\<bar>peak (click_stage w rate (stems_backing (Some g) st max_len) max_len beats) -
          peak (click_stage w rate (stems_backing_without_drums st max_len) max_len beats)\<bar>
         \<le> peak (attenuate (Some g) (drums st))"
proof -
  let ?B = "click_stage w rate (stems_backing_without_drums st max_len) max_len beats"
  let ?D = "attenuate (Some g) (drums st)"
  note wf = clicked_without_drums_wf[of w rate st max_len beats]
  have wB: "list_all (\<lambda>fr. length fr = channels ?B) (frames ?B)" using wf by simp
  have wD: "list_all (\<lambda>fr. length fr = channels ?B) (frames ?D)"
    using attenuate_width[OF wd] wf by simp
  show ?thesis
    unfolding clicked_with_drums using peak_overlay_le[OF wB wD] by linarith
qed

lemma muted_output_close:
  assumes wd: "list_all (\<lambda>fr. length fr = 2) (frames (drums st))"
      and i: "i < length (frames (click_stage w rate (stems_backing_without_drums st max_len)
                 max_len beats))"
      and j: "j < 2"
      and lt: "peak (attenuate (Some g) (drums st)) <
                 peak (click_stage w rate (stems_backing_without_drums st max_len) max_len beats)"
  shows "\<bar>frames (normalize (click_stage w rate (stems_backing (Some g) st max_len) max_len beats))
            ! i ! j -
          frames (normalize (click_stage w rate (stems_backing_without_drums st max_len)
            max_len beats)) ! i ! j\<bar>
         \<le> 2 * (max_possible_amplitude * db_to_float (- 1)) * peak (attenuate (Some g) (drums st)) /
             (peak (click_stage w rate (stems_backing_without_drums st max_len) max_len beats) -
              peak (attenuate (Some g) (drums st)))"
proof -
  let ?A = "click_stage w rate (stems_backing (Some g) st max_len) max_len beats"
  let ?B = "click_stage w rate (stems_backing_without_drums st max_len) max_len beats"
  let ?D = "attenuate (Some g) (drums st)"
  let ?F = "max_possible_amplitude * db_to_float (- 1)"
  note wf = clicked_without_drums_wf[of w rate st max_len beats]
  have wB: "list_all (\<lambda>fr. length fr = channels ?B) (frames ?B)" using wf by simp
  have wA: "list_all (\<lambda>fr. length fr = channels ?B) (frames ?A)"
    unfolding clicked_with_drums by (rule overlay_width_any[OF wB])
  have lA: "length (frames ?A) = length (frames ?B)"
    unfolding clicked_with_drums by (rule length_frames_overlay)
  have iA: "i < length (frames ?A)" using i lA by simp
  have jB: "j < length (frames ?B ! i)" using wB wf i j by (simp add: list_all_length)
  have jA: "j < length (frames ?A ! i)" using wA wf iA j by (simp add: list_all_length)
  have ab: "\<bar>frames ?A ! i ! j - frames ?B ! i ! j\<bar> \<le> peak ?D"
    by (rule muted_residue[OF wd i j])
  have pp: "\<bar>peak ?A - peak ?B\<bar> \<le> peak ?D" by (rule muted_peaks[OF wd])
  have b: "\<bar>frames ?B ! i ! j\<bar> \<le> peak ?B" using i jB by (rule sample_le_peak)
  have F: "0 \<le> ?F" using db_to_float_pos[of "- 1"] by (simp add: max_possible_amplitude_def)
  have pB: "peak ?B \<noteq> 0" using lt peak_nonneg[of ?D] by linarith
  have pA: "peak ?A \<noteq> 0" using lt pp by linarith
  have nA: "frames (normalize ?A) ! i ! j = frames ?A ! i ! j * (?F / peak ?A)"
    using pA iA jA by (rule frames_normalize_nth)
  have nB: "frames (normalize ?B) ! i ! j = frames ?B ! i ! j * (?F / peak ?B)"
    using pB i jB by (rule frames_normalize_nth)
  show ?thesis unfolding nA nB by (rule normalized_close[OF ab pp b lt F])
qed

lemma silent_others_diverge:
  assumes "peak B = 0" "peak A \<noteq> 0"
  shows "max_dBFS (normalize A) = Db (- 1) \<and> max_dBFS (normalize B) = NegInf \<and> normalize B = B"
  using normalize_peak[OF assms(2)] normalize_silence[OF assms(1)] assms(1)
  by (simp add: max_dBFS_NegInf)

lemma residue_audible:
  assumes wd: "list_all (\<lambda>fr. length fr = 2) (frames (drums st))"
      and z: "peak (click_stage w rate (stems_backing_without_drums st max_len) max_len beats) = 0"
      and k: "k < length (frames (click_stage w rate (stems_backing_without_drums st max_len)
                 max_len beats))"
      and kd: "k < length (frames (drums st))"
      and l: "l < 2"
      and nz: "frames (drums st) ! k ! l \<noteq> 0"
  shows "peak (click_stage w rate (stems_backing (Some g) st max_len) max_len beats) \<noteq> 0"
proof -
  let ?A = "click_stage w rate (stems_backing (Some g) st max_len) max_len beats"
  let ?B = "click_stage w rate (stems_backing_without_drums st max_len) max_len beats"
  let ?D = "attenuate (Some g) (drums st)"
  note wf = clicked_without_drums_wf[of w rate st max_len beats]
  have wB: "list_all (\<lambda>fr. length fr = channels ?B) (frames ?B)" using wf by simp
  have wD: "list_all (\<lambda>fr. length fr = channels ?B) (frames ?D)"
    using attenuate_width[OF wd] wf by simp
  have wA: "list_all (\<lambda>fr. length fr = channels ?B) (frames ?A)"
    unfolding clicked_with_drums by (rule overlay_width_any[OF wB])
  have lA: "length (frames ?A) = length (frames ?B)"
    unfolding clicked_with_drums by (rule length_frames_overlay)
  have l': "l < channels ?B" using l wf by simp
  have kA: "k < length (frames ?A)" using k lA by simp
  have lB: "l < length (frames ?B ! k)" using wB wf k l by (simp add: list_all_length)
  have lA': "l < length (frames ?A ! k)" using wA wf kA l by (simp add: list_all_length)
  have ld: "l < length (frames (drums st) ! k)" using wd kd l by (simp add: list_all_length)
  have "\<bar>frames ?B ! k ! l\<bar> \<le> peak ?B" using k lB by (rule sample_le_peak)
  then have b0: "frames ?B ! k ! l = 0" using z by simp
  have kD: "k < length (frames ?D)" using kd by (simp add: attenuate_gain apply_gain_def)
  have "frames ?A ! k ! l = frames ?B ! k ! l + frames ?D ! k ! l"
    unfolding clicked_with_drums using overlay_nth[OF wB wD k l'] kD by simp
  also have "\<dots> = frames (drums st) ! k ! l * db_to_float g"
    using b0 kd ld by (simp add: attenuate_gain apply_gain_def)
  finally have "frames ?A ! k ! l \<noteq> 0" using nz db_to_float_pos[of g] by simp
  moreover have "\<bar>frames ?A ! k ! l\<bar> \<le> peak ?A" using kA lA' by (rule sample_le_peak)
  ultimately show ?thesis by auto
qed

lemma frames_canvas_1: "frames (canvas 1 1000) = [[0, 0]]"
  by (simp add: canvas_def silent_def set_channels_def remix_def numeral_2_eq_2)

lemma channels_canvas: "channels (canvas max_len rate) = 2"
  by (simp add: canvas_def channels_set_channels)

lemma frames_without_drums_example:
  "frames (stems_backing_without_drums drum_only_stems 1) = [[0, 0]]"
  by (simp add: stems_backing_without_drums_def drum_only_stems_def quiet_frame_def Let_def
      overlay_def channels_canvas frames_canvas_1 ms_to_frames_def set_channels_def remix_def
      add_frame_def)

lemma frames_with_drums_example:
  "frames (stems_backing (Some (- 120)) drum_only_stems 1) =
     [[- 16384 / 1000000, - 16384 / 1000000]]"
proof -
  have d: "frames (set_channels 2 (apply_gain (- 120) drum_hit)) =
             [[- 16384 / 1000000, - 16384 / 1000000]]"
    by (simp add: apply_gain_def drum_hit_def set_channels_def remix_def db_to_float_minus_120)
  have r: "drums drum_only_stems = drum_hit" by (simp add: drum_only_stems_def)
  have c: "channels (stems_backing_without_drums drum_only_stems 1) = 2"
    using without_drums_wf by simp
  show ?thesis
    unfolding stems_backing_as_overlay overlay_def r c
    by (simp add: d frames_without_drums_example ms_to_frames_def add_frame_def)
qed

lemma longest_drum_only:
  "longest_duration_ms [vocals drum_only_stems, drums drum_only_stems, bass drum_only_stems,
     other drum_only_stems, mix drum_only_stems] = Inr 1"
proof -
  have b: "duration_ms drum_hit = 1" "duration_ms quiet_frame = 1"
    by (simp_all add: duration_ms_floor duration_seconds_def drum_hit_def quiet_frame_def)
  show ?thesis by (simp add: drum_only_stems_def b)
qed

text \<open>
  C6 as stated (for every stem set the output with the drums at \<open>-120\<close> dB is indistinguishable
  from the output with the drums left out) does not hold: when vocals, bass and other are silent
  and the drums have a sample of \<open>-16384\<close>, the residue of the drums is the only signal, the
  normalization lifts it to a peak of \<open>-1\<close> dBFS, and the output without the drums is silence.
\<close>

theorem mute_by_gain_counterexample:
  "longest_duration_ms [vocals drum_only_stems, drums drum_only_stems, bass drum_only_stems,
     other drum_only_stems, mix drum_only_stems] = Inr 1 \<and>
   max_dBFS (normalize (click_stage example_world 1000
       (stems_backing (Some (- 120)) drum_only_stems 1) 1 [])) = Db (- 1) \<and>
   max_dBFS (normalize (click_stage example_world 1000
       (stems_backing_without_drums drum_only_stems 1) 1 [])) = NegInf"
proof -
  have a: "peak (stems_backing (Some (- 120)) drum_only_stems 1) \<noteq> 0"
    by (simp add: peak_def frames_with_drums_example)
  have b: "peak (stems_backing_without_drums drum_only_stems 1) = 0"
    by (simp add: peak_def frames_without_drums_example)
  show ?thesis
    using normalize_peak[OF a] normalize_silence[OF b] b longest_drum_only
    by (simp add: click_stage_def max_dBFS_NegInf)
qed

lemma click_stage_no_beats: "click_stage w rate backing max_len [] = backing"
  by (simp add: click_stage_def)

lemma frames_without_drums_vocal:
  "frames (stems_backing_without_drums vocal_and_drum_stems 1) = [[8192, 8192]]"
  by (simp add: stems_backing_without_drums_def vocal_and_drum_stems_def quiet_frame_def
      vocal_note_def Let_def overlay_def channels_canvas frames_canvas_1 ms_to_frames_def
      set_channels_def remix_def add_frame_def)

text \<open>
  C6, amended. A drum gain \<open>g\<close>, \<open>-120\<close> dB included, is applied by the one gain operation with
  no branch for muting (at \<open>-120\<close> dB the factor is one millionth), and the mix with the drums at
  gain \<open>g\<close>, clicks included, is the mix without the drums overlaid with the attenuated drums.
  With two-channel drums, as the loader returns them, and \<open>\<delta>\<close> the peak of the attenuated drums
  (the peak of the drums times the factor):
  before the loudness normalization every sample of the mix with the drums differs from the
  sample of the mix without them by at most \<open>\<delta>\<close>;
  when \<open>\<delta>\<close> is below the peak \<open>P\<close> of the mix without the drums, every sample of the normalized
  output with the drums differs from the sample of the normalized output without them by at
  most \<open>2 * F * \<delta> / (P - \<delta>)\<close>, where \<open>F = 32768 * 10 ^ (-1 / 20)\<close> is the normalized peak;
  when the mix without the drums is silent and the drums have a sample other than zero inside
  the canvas, the two outputs differ: with the drums the output has its peak at \<open>-1\<close> dBFS,
  without them it is silence.
\<close>

theorem drums_muted_by_gain:
  "(let A = click_stage w rate (stems_backing (Some g) st max_len) max_len beats;
        B = click_stage w rate (stems_backing_without_drums st max_len) max_len beats;
        D = attenuate (Some g) (drums st);
        F = max_possible_amplitude * db_to_float (- 1)
    in attenuate (Some g) d = apply_gain g d \<and>
       peak D = peak (drums st) * db_to_float g \<and>
       db_to_float (- 120) = 1 / 1000000 \<and>
       stems_backing (Some g) st max_len = overlay (stems_backing_without_drums st max_len) D 0 \<and>
       A = overlay B D 0 \<and>
       (list_all (\<lambda>fr. length fr = 2) (frames (drums st)) \<and> i < length (frames B) \<and> j < 2 \<longrightarrow>
          \<bar>frames A ! i ! j - frames B ! i ! j\<bar> \<le> peak D \<and>
          (peak D < peak B \<longrightarrow>
             \<bar>frames (normalize A) ! i ! j - frames (normalize B) ! i ! j\<bar>
               \<le> 2 * F * peak D / (peak B - peak D))) \<and>
       (peak B = 0 \<and> peak A \<noteq> 0 \<longrightarrow>
          max_dBFS (normalize A) = Db (- 1) \<and> max_dBFS (normalize B) = NegInf \<and>
          normalize B = B) \<and>
       (list_all (\<lambda>fr. length fr = 2) (frames (drums st)) \<and> peak B = 0 \<and>
        k < length (frames B) \<and> k < length (frames (drums st)) \<and> l < 2 \<and>
        frames (drums st) ! k ! l \<noteq> 0 \<longrightarrow> peak A \<noteq> 0))"
  unfolding Let_def
proof (intro conjI impI)
  show "attenuate (Some g) d = apply_gain g d" by (rule attenuate_gain)
  show "peak (attenuate (Some g) (drums st)) = peak (drums st) * db_to_float g"
    by (simp add: attenuate_gain peak_apply_gain)
  show "db_to_float (- 120) = 1 / 1000000" by (rule db_to_float_minus_120)
  show "stems_backing (Some g) st max_len =
          overlay (stems_backing_without_drums st max_len) (attenuate (Some g) (drums st)) 0"
    by (simp add: stems_backing_as_overlay attenuate_gain)
  show "click_stage w rate (stems_backing (Some g) st max_len) max_len beats =
     overlay (click_stage w rate (stems_backing_without_drums st max_len) max_len beats)
       (attenuate (Some g) (drums st)) 0"
    by (rule clicked_with_drums)
next
  assume "list_all (\<lambda>fr. length fr = 2) (frames (drums st)) \<and>
    i < length (frames (click_stage w rate (stems_backing_without_drums st max_len) max_len beats)) \<and>
    j < 2"
  then show "\<bar>frames (click_stage w rate (stems_backing (Some g) st max_len) max_len beats) ! i ! j -
          frames (click_stage w rate (stems_backing_without_drums st max_len) max_len beats) ! i ! j\<bar>
         \<le> peak (attenuate (Some g) (drums st))"
    using muted_residue by blast
next
  assume "list_all (\<lambda>fr. length fr = 2) (frames (drums st)) \<and>
    i < length (frames (click_stage w rate (stems_backing_without_drums st max_len) max_len beats)) \<and>
    j < 2"
    and "peak (attenuate (Some g) (drums st)) <
           peak (click_stage w rate (stems_backing_without_drums st max_len) max_len beats)"
  then show "\<bar>frames (normalize (click_stage w rate (stems_backing (Some g) st max_len) max_len beats))
            ! i ! j -
          frames (normalize (click_stage w rate (stems_backing_without_drums st max_len)
            max_len beats)) ! i ! j\<bar>
         \<le> 2 * (max_possible_amplitude * db_to_float (- 1)) * peak (attenuate (Some g) (drums st)) /
             (peak (click_stage w rate (stems_backing_without_drums st max_len) max_len beats) -
              peak (attenuate (Some g) (drums st)))"
    using muted_output_close by blast
next
  assume h: "peak (click_stage w rate (stems_backing_without_drums st max_len) max_len beats) = 0 \<and>
    peak (click_stage w rate (stems_backing (Some g) st max_len) max_len beats) \<noteq> 0"
  note r = silent_others_diverge[OF conjunct1[OF h] conjunct2[OF h]]
  from r show "max_dBFS (normalize (click_stage w rate (stems_backing (Some g) st max_len)
      max_len beats)) = Db (- 1)" by blast
  from r show "max_dBFS (normalize (click_stage w rate (stems_backing_without_drums st max_len)
      max_len beats)) = NegInf" by blast
  from r show "normalize (click_stage w rate (stems_backing_without_drums st max_len) max_len beats) =
      click_stage w rate (stems_backing_without_drums st max_len) max_len beats" by blast
next
  assume "list_all (\<lambda>fr. length fr = 2) (frames (drums st)) \<and>
    peak (click_stage w rate (stems_backing_without_drums st max_len) max_len beats) = 0 \<and>
    k < length (frames (click_stage w rate (stems_backing_without_drums st max_len) max_len beats)) \<and>
    k < length (frames (drums st)) \<and> l < 2 \<and> frames (drums st) ! k ! l \<noteq> 0"
  then show "peak (click_stage w rate (stems_backing (Some g) st max_len) max_len beats) \<noteq> 0"
    using residue_audible by blast
qed

theorem drums_muted_by_gain_witness:
  "list_all (\<lambda>fr. length fr = 2) (frames (drums vocal_and_drum_stems)) \<and>
   0 < length (frames (click_stage example_world 1000
         (stems_backing_without_drums vocal_and_drum_stems 1) 1 [])) \<and>
   (0 :: nat) < 2 \<and>
   peak (attenuate (Some (- 120)) (drums vocal_and_drum_stems)) <
     peak (click_stage example_world 1000 (stems_backing_without_drums vocal_and_drum_stems 1) 1 []) \<and>
   \<bar>frames (click_stage example_world 1000
        (stems_backing (Some (- 120)) vocal_and_drum_stems 1) 1 []) ! 0 ! 0 -
     frames (click_stage example_world 1000
        (stems_backing_without_drums vocal_and_drum_stems 1) 1 []) ! 0 ! 0\<bar>
     \<le> peak (attenuate (Some (- 120)) (drums vocal_and_drum_stems)) \<and>
   \<bar>frames (normalize (click_stage example_world 1000
        (stems_backing (Some (- 120)) vocal_and_drum_stems 1) 1 [])) ! 0 ! 0 -
     frames (normalize (click_stage example_world 1000
        (stems_backing_without_drums vocal_and_drum_stems 1) 1 [])) ! 0 ! 0\<bar>
     \<le> 2 * (max_possible_amplitude * db_to_float (- 1)) *
          peak (attenuate (Some (- 120)) (drums vocal_and_drum_stems)) /
          (peak (click_stage example_world 1000
             (stems_backing_without_drums vocal_and_drum_stems 1) 1 []) -
           peak (attenuate (Some (- 120)) (drums vocal_and_drum_stems))) \<and>
   list_all (\<lambda>fr. length fr = 2) (frames (drums drum_only_stems)) \<and>
   peak (click_stage example_world 1000 (stems_backing_without_drums drum_only_stems 1) 1 []) = 0 \<and>
   0 < length (frames (click_stage example_world 1000
         (stems_backing_without_drums drum_only_stems 1) 1 [])) \<and>
   0 < length (frames (drums drum_only_stems)) \<and>
   frames (drums drum_only_stems) ! 0 ! 0 = - 16384 \<and>
   0 < peak (click_stage example_world 1000
         (stems_backing (Some (- 120)) drum_only_stems 1) 1 []) \<and>
   max_dBFS (normalize (click_stage example_world 1000
       (stems_backing (Some (- 120)) drum_only_stems 1) 1 [])) = Db (- 1) \<and>
   max_dBFS (normalize (click_stage example_world 1000
       (stems_backing_without_drums drum_only_stems 1) 1 [])) = NegInf"
proof -
  note t1 = drums_muted_by_gain[where w = example_world and rate = 1000 and g = "- 120"
      and st = vocal_and_drum_stems and max_len = 1 and beats = "[]" and i = 0 and j = 0,
      unfolded Let_def]
  note t2 = drums_muted_by_gain[where w = example_world and rate = 1000 and g = "- 120"
      and st = drum_only_stems and max_len = 1 and beats = "[]" and k = 0 and l = 0,
      unfolded Let_def]
  have a1: "list_all (\<lambda>fr. length fr = 2) (frames (drums vocal_and_drum_stems))"
    by (simp add: vocal_and_drum_stems_def drum_hit_def)
  have a2: "0 < length (frames (click_stage example_world 1000
         (stems_backing_without_drums vocal_and_drum_stems 1) 1 []))"
    by (simp add: click_stage_no_beats frames_without_drums_vocal)
  have a3: "(0 :: nat) < 2" by simp
  have pD: "peak (attenuate (Some (- 120)) (drums vocal_and_drum_stems)) = 16384 / 1000000"
    by (simp add: attenuate_gain peak_apply_gain db_to_float_minus_120 peak_drum_hit
        vocal_and_drum_stems_def)
  have pB: "peak (click_stage example_world 1000
        (stems_backing_without_drums vocal_and_drum_stems 1) 1 []) = 8192"
    by (simp add: click_stage_no_beats peak_def frames_without_drums_vocal)
  have a4: "peak (attenuate (Some (- 120)) (drums vocal_and_drum_stems)) <
     peak (click_stage example_world 1000 (stems_backing_without_drums vocal_and_drum_stems 1) 1 [])"
    unfolding pD pB by simp
  from t1 a1 a2 a3 have c1: "\<bar>frames (click_stage example_world 1000
        (stems_backing (Some (- 120)) vocal_and_drum_stems 1) 1 []) ! 0 ! 0 -
     frames (click_stage example_world 1000
        (stems_backing_without_drums vocal_and_drum_stems 1) 1 []) ! 0 ! 0\<bar>
     \<le> peak (attenuate (Some (- 120)) (drums vocal_and_drum_stems))"
    by blast
  from t1 a1 a2 a3 a4 have c2: "\<bar>frames (normalize (click_stage example_world 1000
        (stems_backing (Some (- 120)) vocal_and_drum_stems 1) 1 [])) ! 0 ! 0 -
     frames (normalize (click_stage example_world 1000
        (stems_backing_without_drums vocal_and_drum_stems 1) 1 [])) ! 0 ! 0\<bar>
     \<le> 2 * (max_possible_amplitude * db_to_float (- 1)) *
          peak (attenuate (Some (- 120)) (drums vocal_and_drum_stems)) /
          (peak (click_stage example_world 1000
             (stems_backing_without_drums vocal_and_drum_stems 1) 1 []) -
           peak (attenuate (Some (- 120)) (drums vocal_and_drum_stems)))"
    by blast
  have b1: "list_all (\<lambda>fr. length fr = 2) (frames (drums drum_only_stems))"
    by (simp add: drum_only_stems_def drum_hit_def)
  have b2: "peak (click_stage example_world 1000
        (stems_backing_without_drums drum_only_stems 1) 1 []) = 0"
    by (simp add: click_stage_no_beats peak_def frames_without_drums_example)
  have b3: "0 < length (frames (click_stage example_world 1000
         (stems_backing_without_drums drum_only_stems 1) 1 []))"
    by (simp add: click_stage_no_beats frames_without_drums_example)
  have b4: "0 < length (frames (drums drum_only_stems))"
    by (simp add: drum_only_stems_def drum_hit_def)
  have b5: "frames (drums drum_only_stems) ! 0 ! 0 = - 16384"
    by (simp add: drum_only_stems_def drum_hit_def)
  have b6: "frames (drums drum_only_stems) ! 0 ! 0 \<noteq> 0" unfolding b5 by simp
  from t2 b1 b2 b3 b4 a3 b6 have n: "peak (click_stage example_world 1000
         (stems_backing (Some (- 120)) drum_only_stems 1) 1 []) \<noteq> 0"
    by blast
  then have c3: "0 < peak (click_stage example_world 1000
         (stems_backing (Some (- 120)) drum_only_stems 1) 1 [])"
    using peak_nonneg[of "click_stage example_world 1000
         (stems_backing (Some (- 120)) drum_only_stems 1) 1 []"] by linarith
  from t2 b2 n have c4: "max_dBFS (normalize (click_stage example_world 1000
       (stems_backing (Some (- 120)) drum_only_stems 1) 1 [])) = Db (- 1)"
    and c5: "max_dBFS (normalize (click_stage example_world 1000
       (stems_backing_without_drums drum_only_stems 1) 1 [])) = NegInf"
    by blast+
  show ?thesis
    by (intro conjI a1 a2 a3 a4 c1 c2 b1 b2 b3 b4 b5 c3 c4 c5)
qed

end
